theory Spec2Isabelle
  imports Complex_Main "HOL-Library.Multiset" "HOL-Library.Sublist" "HOL-Library.Word"
begin

section \<open>The ordering routine of \<open>utils_sort.py\<close>\<close>

text \<open>
  \<open>quicksort_orders(orders, key, reverse)\<close> is a recursive three-way partition sort.
  The elements of the list are references to orders; the routine never looks inside
  them except through \<open>key\<close>, so the element type is left open.  The key function is
  a pure function into a type with an order; Python's \<open>==\<close>, \<open><\<close> and \<open>>\<close> on keys
  are the equality and the strict order of that type.  The order need not be total:
  Python sets, compared by inclusion, are keys the routine accepts.  The specification
  asks for totally ordered keys (section 4.7 and the glossary), and the theorems that
  need it say so in the type of \<open>key\<close>.  A strict order is irreflexive, which is what
  makes the recursion end: the pivot is in neither the smaller nor the larger group.
  The interpreter's recursion limit and memory exhaustion are outside the model.

  This first definition gives the value the routine returns; the identity of the list
  objects involved is the subject of the store-level definition further down.
\<close>

function quicksort_orders :: "'a list \<Rightarrow> ('a \<Rightarrow> 'k::order) \<Rightarrow> bool \<Rightarrow> 'a list" where
  "quicksort_orders orders key reverse =
     (if length orders \<le> 1 then orders
      else
        let pivot = orders ! (length orders div 2);
            pivot_key = key pivot;
            less = filter (\<lambda>o'. key o' < pivot_key) orders;
            equal = filter (\<lambda>o'. key o' = pivot_key) orders;
            greater = filter (\<lambda>o'. key o' > pivot_key) orders;
            result = quicksort_orders less key reverse @ equal @ quicksort_orders greater key reverse
        in if reverse then rev result else result)"
  by pat_completeness auto

lemma pivot_in_orders: "\<not> length orders \<le> 1 \<Longrightarrow> orders ! (length orders div 2) \<in> set orders"
  by (rule nth_mem) simp

lemma less_part_shorter:
  fixes key :: "'a \<Rightarrow> 'k::order"
  assumes "p \<in> set orders"
  shows "length (filter (\<lambda>o'. key o' < key p) orders) < length orders"
proof -
  have "\<not> key p < key p" by simp
  with assms show ?thesis by (intro length_filter_less[of p]) auto
qed

lemma greater_part_shorter:
  fixes key :: "'a \<Rightarrow> 'k::order"
  assumes "p \<in> set orders"
  shows "length (filter (\<lambda>o'. key p < key o') orders) < length orders"
proof -
  have "\<not> key p < key p" by simp
  with assms show ?thesis by (intro length_filter_less[of p]) auto
qed

termination quicksort_orders
  by (relation "measure (\<lambda>(orders, key, reverse). length orders)")
     (auto simp: less_part_shorter greater_part_shorter pivot_in_orders)

declare quicksort_orders.simps [simp del]

section \<open>The ordering routine on list objects\<close>

text \<open>
  A Python list is an object: two names can refer to one list, and \<open>reverse()\<close>
  changes a list in place.  To say that the routine leaves its argument alone and
  hands back a list of its own, the list objects are kept in a store; a reference is
  an index into the store, and creating a list appends it to the store.  The slice
  \<open>orders[:]\<close>, each comprehension and each \<open>+\<close> create a list;
  \<open>result.reverse()\<close> overwrites the list \<open>result\<close> refers to.  The
  operations are taken in the order in which Python evaluates them: the first
  recursive call, the first \<open>+\<close>, the second recursive call, the second \<open>+\<close>.
  A reference that is not in the store has no counterpart in Python; the model
  answers \<open>None\<close> for it.
\<close>

type_synonym 'a store = "'a list list"

abbreviation alloc :: "'a store \<Rightarrow> 'a list \<Rightarrow> nat \<times> 'a store" where
  "alloc st xs \<equiv> (length st, st @ [xs])"

function quicksort_orders_ref ::
  "'a store \<Rightarrow> nat \<Rightarrow> ('a \<Rightarrow> 'k::order) \<Rightarrow> bool \<Rightarrow> (nat \<times> 'a store) option" where
  "quicksort_orders_ref st orders key reverse =
     (if length st \<le> orders then None
      else if length (st ! orders) \<le> 1 then Some (alloc st (st ! orders))
      else
        let pivot = (st ! orders) ! (length (st ! orders) div 2);
            pivot_key = key pivot;
            (less, st1) = alloc st (filter (\<lambda>o'. key o' < pivot_key) (st ! orders));
            (equal, st2) = alloc st1 (filter (\<lambda>o'. key o' = pivot_key) (st1 ! orders));
            (greater, st3) = alloc st2 (filter (\<lambda>o'. key o' > pivot_key) (st2 ! orders))
        in case quicksort_orders_ref st3 less key reverse of
             None \<Rightarrow> None
           | Some (sorted_less, st4) \<Rightarrow>
               let (front, st5) = alloc st4 (st4 ! sorted_less @ st4 ! equal)
               in (case quicksort_orders_ref st5 greater key reverse of
                     None \<Rightarrow> None
                   | Some (sorted_greater, st6) \<Rightarrow>
                       let (result, st7) = alloc st6 (st6 ! front @ st6 ! sorted_greater);
                           st8 = (if reverse then st7[result := rev (st7 ! result)] else st7)
                       in Some (result, st8)))"
  by pat_completeness auto

text \<open>
  The second recursive call runs on the store the first one returns, so termination
  needs to know that a call only appends to the store.  This is proved first for the
  arguments on which the function is already known to terminate.
\<close>

lemma ref_step:
  assumes "quicksort_orders_ref_dom (st, orders, key, reverse)"
    and "orders < length st" and "\<not> length (st ! orders) \<le> 1"
  shows "quicksort_orders_ref st orders key reverse =
     (let k = key ((st ! orders) ! (length (st ! orders) div 2));
          st3 = st @ [filter (\<lambda>o'. key o' < k) (st ! orders),
                      filter (\<lambda>o'. key o' = k) (st ! orders),
                      filter (\<lambda>o'. key o' > k) (st ! orders)]
      in case quicksort_orders_ref st3 (length st) key reverse of
           None \<Rightarrow> None
         | Some (a, st4) \<Rightarrow>
            (case quicksort_orders_ref (st4 @ [st4 ! a @ st4 ! Suc (length st)]) (Suc (Suc (length st))) key reverse of
               None \<Rightarrow> None
             | Some (b, st6) \<Rightarrow>
                 Some (length st6, st6 @ [if reverse then rev (st6 ! length st4 @ st6 ! b)
                                          else st6 ! length st4 @ st6 ! b])))"
  using assms(2,3)
  by (simp add: quicksort_orders_ref.psimps[OF assms(1)] Let_def nth_append
      split: option.splits prod.splits)

lemma ref_frame_partial:
  assumes "quicksort_orders_ref_dom (st, orders, key, reverse)"
  shows "quicksort_orders_ref st orders key reverse = Some (r, st') \<Longrightarrow>
         prefix st st' \<and> length st \<le> r \<and> r < length st'"
  using assms
proof (induction arbitrary: r st' rule: quicksort_orders_ref.pinduct)
  case (1 st orders key reverse)
  note dom = "1"(1) and res = "1"(4)
  have v: "\<not> length st \<le> orders"
    using res by (auto simp: quicksort_orders_ref.psimps[OF dom])
  show ?case
  proof (cases "length (st ! orders) \<le> 1")
    case True
    with v res show ?thesis by (auto simp: quicksort_orders_ref.psimps[OF dom])
  next
    case False
    define k where "k = key ((st ! orders) ! (length (st ! orders) div 2))"
    define st3 where "st3 = st @ [filter (\<lambda>o'. key o' < k) (st ! orders),
                      filter (\<lambda>o'. key o' = k) (st ! orders),
                      filter (\<lambda>o'. key o' > k) (st ! orders)]"
    have ih1: "prefix st3 s' \<and> length st3 \<le> r' \<and> r' < length s'"
      if "quicksort_orders_ref st3 (length st) key reverse = Some (r', s')" for r' s'
      using "1"(2)[OF v False refl refl refl refl refl refl refl refl] v that
      by (simp add: nth_append st3_def k_def)
    have ih2: "prefix (st4 @ [st4 ! a @ st4 ! Suc (length st)]) s' \<and> length (st4 @ [st4 ! a @ st4 ! Suc (length st)]) \<le> r' \<and> r' < length s'"
      if "quicksort_orders_ref st3 (length st) key reverse = Some (a, st4)"
        and "quicksort_orders_ref (st4 @ [st4 ! a @ st4 ! Suc (length st)]) (Suc (Suc (length st))) key reverse = Some (r', s')" for a st4 r' s'
      using "1"(3)[OF v False refl refl refl refl refl refl refl refl _ refl refl refl] v that
      by (simp add: nth_append st3_def k_def)
    from res v False obtain a st4 b st6 where
      c1: "quicksort_orders_ref st3 (length st) key reverse = Some (a, st4)" and
      c2: "quicksort_orders_ref (st4 @ [st4 ! a @ st4 ! Suc (length st)]) (Suc (Suc (length st))) key reverse = Some (b, st6)" and
      r: "r = length st6" and
      st': "st' = st6 @ [if reverse then rev (st6 ! length st4 @ st6 ! b) else st6 ! length st4 @ st6 ! b]"
      by (auto simp: ref_step[OF dom] Let_def st3_def k_def split: option.splits)
    have "prefix st st3" by (simp add: st3_def)
    also have "prefix st3 st4" using ih1[OF c1] by simp
    also have "prefix st4 (st4 @ [st4 ! a @ st4 ! Suc (length st)])" by simp
    also have "prefix \<dots> st6" using ih2[OF c1 c2] by simp
    also have "prefix st6 st'" by (simp add: st')
    finally have p: "prefix st st'" .
    have "length st \<le> length st3" by (simp add: st3_def)
    also have "\<dots> \<le> length st4" using ih1[OF c1] by (simp add: prefix_length_le)
    also have "\<dots> \<le> length st6" using ih2[OF c1 c2] by (auto dest: prefix_length_le)
    finally have "length st \<le> r" by (simp add: r)
    moreover have "r < length st'" by (simp add: r st')
    ultimately show ?thesis using p by simp
  qed
qed

termination quicksort_orders_ref
  apply (relation "measure (\<lambda>(st, orders, key, reverse). length (st ! orders))")
    apply simp
   apply (simp add: nth_append less_part_shorter pivot_in_orders)
  apply (auto dest!: ref_frame_partial simp: nth_append prefix_def greater_part_shorter pivot_in_orders)
  done

declare quicksort_orders_ref.simps [simp del]

section \<open>Strings, exceptions and identifiers of \<open>models.py\<close>\<close>

unbundle bit_operations_syntax

text \<open>
  A Python \<open>str\<close> is a sequence of Unicode code points; a code point is a natural
  number.  \<open>lit\<close> turns an ASCII literal of the source into such a sequence.
\<close>

type_synonym str = "nat list"

definition lit :: "string \<Rightarrow> str" where
  "lit s = map of_char s"

text \<open>
  Exceptions.  \<open>ValidationError\<close> is the class the module declares (a subclass of
  \<open>ValueError\<close>) with its message.  \<open>Exception cls\<close> stands for any other exception
  whose class \<open>cls\<close> derives from \<open>Exception\<close>, and \<open>BaseException cls\<close> for one
  whose class derives from \<open>BaseException\<close> only (\<open>KeyboardInterrupt\<close>,
  \<open>SystemExit\<close>, \<open>GeneratorExit\<close>).  \<open>is_Exception e\<close> is
  \<open>isinstance(e, Exception)\<close>, the test an \<open>except Exception\<close> clause makes.
\<close>

datatype exn = ValidationError str | Exception str | BaseException str

fun is_Exception :: "exn \<Rightarrow> bool" where
  "is_Exception (ValidationError msg) = True"
| "is_Exception (Exception cls) = True"
| "is_Exception (BaseException cls) = False"

text \<open>
  The truth value Python gives an optional string in \<open>if x:\<close>, \<open>not x\<close> and
  \<open>x or y\<close>: \<open>None\<close> and the empty string are false.
\<close>

fun truthy :: "str option \<Rightarrow> bool" where
  "truthy None = False"
| "truthy (Some s) = (s \<noteq> [])"

text \<open>
  \<open>_generate_id()\<close> returns \<open>uuid.uuid4().hex\<close>.  The standard library draws 16
  random bytes, reads them as a 128-bit integer, overwrites the variant and version
  bits and prints the integer with \<open>'%032x'\<close>.  The random bytes are an argument
  \<open>rnd\<close> of every operation that may generate an identifier.
\<close>

definition uuid4_int :: "128 word \<Rightarrow> 128 word" where
  "uuid4_int rnd =
     (let i1 = rnd AND NOT (push_bit 48 0xc000);
          i2 = i1 OR push_bit 48 0x8000;
          i3 = i2 AND NOT (push_bit 64 0xf000)
      in i3 OR push_bit 76 4)"

definition hex32 :: "128 word \<Rightarrow> str" where
  "hex32 w = map (\<lambda>i. lit ''0123456789abcdef'' ! unat (drop_bit (4 * (31 - i)) w AND 15)) [0..<32]"

definition generate_id :: "128 word \<Rightarrow> str" where
  "generate_id rnd = hex32 (uuid4_int rnd)"

section \<open>Contact validation\<close>

text \<open>
  \<open>EMAIL_RE\<close> and \<open>PHONE_RE\<close> are compiled from the patterns
  \<^verbatim>\<open>^[\w\.-]+@[\w\.-]+\.\w+$\<close> and \<^verbatim>\<open>^\+?\d{7,15}$\<close>.  In a \<open>str\<close> pattern \<open>\w\<close> matches
  what \<open>str.isalnum\<close> accepts and the underscore, and \<open>\d\<close> matches the decimal
  digits of Unicode.  For ASCII these classes are written out; for the code points from
  128 on they are read from the interpreter's Unicode database, which is not part of
  the repository and is a parameter \<open>U\<close> here.
\<close>

record unicode_db =
  alnum :: "nat \<Rightarrow> bool"
  decimal :: "nat \<Rightarrow> bool"

definition is_word :: "unicode_db \<Rightarrow> nat \<Rightarrow> bool" where
  "is_word U c =
     (if c < 128 then (48 \<le> c \<and> c \<le> 57) \<or> (65 \<le> c \<and> c \<le> 90) \<or> (97 \<le> c \<and> c \<le> 122) \<or> c = 95
      else alnum U c)"

definition is_digit :: "unicode_db \<Rightarrow> nat \<Rightarrow> bool" where
  "is_digit U c = (if c < 128 then 48 \<le> c \<and> c \<le> 57 else decimal U c)"

text \<open>
  Both patterns are a sequence of character classes, each with a repetition range,
  between \<open>^\<close> and \<open>$\<close>.  \<open>Piece cls lo hi\<close> is the class \<open>cls\<close> repeated at least
  \<open>lo\<close> and at most \<open>hi\<close> times (\<open>None\<close>: unbounded).  \<open>match_pieces ps s\<close> says
  whether \<open>re.match\<close> finds a match of \<open>^ps$\<close> in \<open>s\<close>: some split of \<open>s\<close> gives
  every piece an admissible number of characters of its class, and what is left is the
  end of the string.  Without the \<open>MULTILINE\<close> flag \<open>$\<close> matches at the end of the
  string and also just before a line feed (code point 10) that ends the string.
\<close>

datatype piece = Piece "nat \<Rightarrow> bool" nat "nat option"

fun match_pieces :: "piece list \<Rightarrow> str \<Rightarrow> bool" where
  "match_pieces [] s = (s = [] \<or> s = [10])"
| "match_pieces (Piece cls lo hi # ps) s =
     list_ex (\<lambda>n. list_all cls (take n s) \<and> match_pieces ps (drop n s))
       [lo ..< Suc (case hi of None \<Rightarrow> length s | Some h \<Rightarrow> min h (length s))]"

text \<open>
  The code points used below: 64 is \<open>@\<close>, 46 the dot, 45 the hyphen, 43 the plus
  sign, 95 the underscore.
\<close>

definition EMAIL_RE :: "unicode_db \<Rightarrow> piece list" where
  "EMAIL_RE U =
     [Piece (\<lambda>c. is_word U c \<or> c = 46 \<or> c = 45) 1 None,
      Piece (\<lambda>c. c = 64) 1 (Some 1),
      Piece (\<lambda>c. is_word U c \<or> c = 46 \<or> c = 45) 1 None,
      Piece (\<lambda>c. c = 46) 1 (Some 1),
      Piece (is_word U) 1 None]"

definition PHONE_RE :: "unicode_db \<Rightarrow> piece list" where
  "PHONE_RE U = [Piece (\<lambda>c. c = 43) 0 (Some 1), Piece (is_digit U) 7 (Some 15)]"

text \<open>A Unicode database with nothing beyond ASCII, for evaluating examples.\<close>

definition ascii_only :: unicode_db where
  "ascii_only = \<lparr>alnum = (\<lambda>c. False), decimal = (\<lambda>c. False)\<rparr>"

section \<open>The entities of \<open>models.py\<close>\<close>

text \<open>
  Every class is a record of its attributes; the attributes carry the name of the
  class in front (\<open>_email\<close> of \<open>Person\<close> is \<open>person_email\<close>).  A constructor
  returns either the exception it raises or the object.  \<open>price\<close> is a Python
  \<open>float\<close>.  A price is a real number here, as every finite float is; the only thing
  the module does with a price itself is to compare it with 0, which is exact.  NaN is
  outside the model.
\<close>

record product =
  product_name :: str
  product_price :: real
  product_sku :: "str option"

definition Product_init :: "128 word \<Rightarrow> str \<Rightarrow> real \<Rightarrow> str option \<Rightarrow> exn + product" where
  "Product_init rnd name price sku =
     (if price < 0 then Inl (ValidationError (lit ''Price cannot be negative''))
      else Inr \<lparr>product_name = name, product_price = price,
                product_sku = (if \<not> truthy sku then Some (generate_id rnd) else sku)\<rparr>)"

text \<open>
  The property setters of \<open>Person\<close> validate and then store.  They return the
  outcome together with the object as it is after the call, so that what a failed
  assignment leaves behind can be stated.  \<open>Customer\<close> extends \<open>Person\<close>, and the
  setters work on both.
\<close>

record person =
  person_name :: str
  person_email :: "str option"
  person_phone :: "str option"

definition set_email ::
  "unicode_db \<Rightarrow> 'a person_scheme \<Rightarrow> str \<Rightarrow> (exn + unit) \<times> 'a person_scheme" where
  "set_email U self v =
     (if \<not> match_pieces (EMAIL_RE U) v
      then (Inl (ValidationError (lit ''Invalid email: '' @ v)), self)
      else (Inr (), self\<lparr>person_email := Some v\<rparr>))"

definition set_phone ::
  "unicode_db \<Rightarrow> 'a person_scheme \<Rightarrow> str \<Rightarrow> (exn + unit) \<times> 'a person_scheme" where
  "set_phone U self v =
     (if \<not> match_pieces (PHONE_RE U) v
      then (Inl (ValidationError (lit ''Invalid phone number: '' @ v)), self)
      else (Inr (), self\<lparr>person_phone := Some v\<rparr>))"

definition Person_init ::
  "unicode_db \<Rightarrow> str \<Rightarrow> str option \<Rightarrow> str option \<Rightarrow> exn + person" where
  "Person_init U name email phone =
     (let self = \<lparr>person_name = name, person_email = None, person_phone = None\<rparr>
      in case (if truthy email then set_email U self (the email) else (Inr (), self)) of
           (Inl e, self1) \<Rightarrow> Inl e
         | (Inr u, self1) \<Rightarrow>
             (case (if truthy phone then set_phone U self1 (the phone) else (Inr (), self1)) of
                (Inl e, self2) \<Rightarrow> Inl e
              | (Inr u, self2) \<Rightarrow> Inr self2))"

record customer = person +
  customer_city :: "str option"
  customer_id :: str
  customer_orders :: "nat list"

definition Customer_init ::
  "unicode_db \<Rightarrow> 128 word \<Rightarrow> str \<Rightarrow> str option \<Rightarrow> str option \<Rightarrow> str option \<Rightarrow> str option
     \<Rightarrow> exn + customer" where
  "Customer_init U rnd name email phone city cid =
     (case Person_init U name email phone of
        Inl e \<Rightarrow> Inl e
      | Inr self \<Rightarrow>
          Inr \<lparr>person_name = person_name self, person_email = person_email self,
               person_phone = person_phone self,
               customer_city = city,
               customer_id = (if truthy cid then the cid else generate_id rnd),
               customer_orders = []\<rparr>)"

text \<open>
  \<open>OrderItem\<close> holds a reference to a \<open>Product\<close> object and a quantity; an omitted
  quantity is 1.
\<close>

record order_item =
  item_product :: nat
  item_quantity :: int


record order =
  order_id :: str
  order_customer :: nat
  order_items :: "order_item list"
  order_created_at :: int

text \<open>
  Products, customers and orders are objects that are shared and changed after they
  were created: an order item reads the price of its product when asked for its cost,
  and constructing an order appends to the order list of its customer.  They live in a
  heap; a reference is an index into the list of the objects of its class, and creating
  an object appends it.  A reference outside the list stands for a value that is not
  an object of the class (\<open>None\<close>, say); using an attribute or method of the class
  on it raises \<open>AttributeError\<close>.
\<close>

record heap =
  product_objs :: "product list"
  customer_objs :: "customer list"
  order_objs :: "order list"



definition Customer_add_order :: "heap \<Rightarrow> nat \<Rightarrow> nat \<Rightarrow> (exn + unit) \<times> heap" where
  "Customer_add_order h self ord =
     (if self < length (customer_objs h)
      then (Inr (),
            h\<lparr>customer_objs := (customer_objs h)
                 [self := (customer_objs h ! self)
                    \<lparr>customer_orders := customer_orders (customer_objs h ! self) @ [ord]\<rparr>]\<rparr>)
      else (Inl (Exception (lit ''AttributeError'')), h))"

definition Customer_orders :: "heap \<Rightarrow> nat \<Rightarrow> nat list" where
  "Customer_orders h self = customer_orders (customer_objs h ! self)"

text \<open>
  \<open>Order.__init__\<close> sets the attributes and then calls \<open>customer.add_order(self)\<close>
  inside \<open>try ... except Exception: pass\<close>.  Which method that call runs depends on
  the class of \<open>customer\<close>; the method is the parameter \<open>add_order\<close>, and
  \<open>Customer_add_order\<close> is the one the repository defines.  \<open>now\<close> is what
  \<open>datetime.utcnow()\<close> returns; a timestamp is an integer.
\<close>

definition Order_init ::
  "(heap \<Rightarrow> nat \<Rightarrow> nat \<Rightarrow> (exn + unit) \<times> heap) \<Rightarrow> 128 word \<Rightarrow> int \<Rightarrow> heap
     \<Rightarrow> nat \<Rightarrow> order_item list option \<Rightarrow> int option \<Rightarrow> str option \<Rightarrow> (exn + nat) \<times> heap" where
  "Order_init add_order rnd now h customer items created_at oid =
     (let self = length (order_objs h);
          obj = \<lparr>order_id = (if truthy oid then the oid else generate_id rnd),
                 order_customer = customer,
                 order_items = (case items of None \<Rightarrow> [] | Some xs \<Rightarrow> if xs \<noteq> [] then xs else []),
                 order_created_at = (case created_at of None \<Rightarrow> now | Some t \<Rightarrow> t)\<rparr>;
          h1 = h\<lparr>order_objs := order_objs h @ [obj]\<rparr>
      in case add_order h1 customer self of
           (Inr u, h2) \<Rightarrow> (Inr self, h2)
         | (Inl e, h2) \<Rightarrow> if is_Exception e then (Inr self, h2) else (Inl e, h2))"


text \<open>
  Two values for examples: a registration method that is interrupted (a
  \<open>KeyboardInterrupt\<close> arriving during the call, or an override that raises one),
  and the heap with no objects.
\<close>

definition interrupted_add_order :: "heap \<Rightarrow> nat \<Rightarrow> nat \<Rightarrow> (exn + unit) \<times> heap" where
  "interrupted_add_order h self ord = (Inl (BaseException (lit ''KeyboardInterrupt'')), h)"

definition empty_heap :: heap where
  "empty_heap = \<lparr>product_objs = [], customer_objs = [], order_objs = []\<rparr>"

section \<open>Properties of the ordering routine\<close>

subsection \<open>Unfolding and induction\<close>

lemma quicksort_orders_short: "length orders \<le> 1 \<Longrightarrow> quicksort_orders orders key reverse = orders"
  by (subst quicksort_orders.simps) simp

lemma quicksort_orders_step:
  "\<not> length orders \<le> 1 \<Longrightarrow>
   quicksort_orders orders key reverse =
     (let pivot_key = key (orders ! (length orders div 2));
          result = quicksort_orders (filter (\<lambda>o'. key o' < pivot_key) orders) key reverse
                   @ filter (\<lambda>o'. key o' = pivot_key) orders
                   @ quicksort_orders (filter (\<lambda>o'. key o' > pivot_key) orders) key reverse
      in if reverse then rev result else result)"
  by (subst quicksort_orders.simps) (simp add: Let_def)

lemma partition_induct [case_names short step]:
  fixes key :: "'a \<Rightarrow> 'k::linorder"
  assumes short: "\<And>orders. length orders \<le> 1 \<Longrightarrow> P orders"
    and step: "\<And>orders. \<not> length orders \<le> 1 \<Longrightarrow>
        P (filter (\<lambda>o'. key o' < key (orders ! (length orders div 2))) orders) \<Longrightarrow>
        P (filter (\<lambda>o'. key o' > key (orders ! (length orders div 2))) orders) \<Longrightarrow> P orders"
  shows "P orders"
proof (induction orders rule: length_induct)
  case (1 xs)
  show ?case
  proof (cases "length xs \<le> 1")
    case True
    then show ?thesis by (rule short)
  next
    case False
    then have p: "xs ! (length xs div 2) \<in> set xs" by (rule pivot_in_orders)
    show ?thesis
      by (rule step[OF False]) (use 1 less_part_shorter[OF p] greater_part_shorter[OF p] in blast)+
  qed
qed

lemma mset_three_way:
  fixes key :: "'a \<Rightarrow> 'k::linorder"
  shows "mset (filter (\<lambda>o'. key o' < k) xs) + mset (filter (\<lambda>o'. key o' = k) xs)
         + mset (filter (\<lambda>o'. key o' > k) xs) = mset xs"
  by (induction xs) auto

text \<open>
  The result holds exactly the elements of the input, each as often as the input
  does, for either direction.
\<close>

lemma mset_quicksort_orders:
  fixes key :: "'a \<Rightarrow> 'k::linorder"
  shows "mset (quicksort_orders orders key reverse) = mset orders"
proof (induction orders rule: partition_induct[where key = key])
  case (short orders)
  then show ?case by (simp add: quicksort_orders_short)
next
  case (step orders)
  let ?k = "key (orders ! (length orders div 2))"
  have "mset (quicksort_orders orders key reverse) =
        mset (filter (\<lambda>o'. key o' < ?k) orders) + mset (filter (\<lambda>o'. key o' = ?k) orders)
         + mset (filter (\<lambda>o'. key o' > ?k) orders)"
    using step(2,3) by (cases reverse) (simp_all add: quicksort_orders_step[OF step(1)] Let_def)
  then show ?case by (simp only: mset_three_way)
qed

lemma set_quicksort_orders:
  fixes key :: "'a \<Rightarrow> 'k::linorder"
  shows "set (quicksort_orders orders key reverse) = set orders"
  by (metis mset_quicksort_orders set_mset_mset)

lemma sorted_equal_part: "sorted (map key (filter (\<lambda>o'. key o' = k) xs))"
  by (induction xs) auto

lemma sorted_quicksort_orders: "sorted (map key (quicksort_orders orders key False))"
proof (induction orders rule: partition_induct[where key = key])
  case (short orders)
  then have "length (map key orders) \<le> 1" by simp
  then have "sorted (map key orders)" by (cases orders) auto
  with short show ?case by (simp add: quicksort_orders_short)
next
  case (step orders)
  then show ?case
    by (auto simp: quicksort_orders_step[OF step(1)] Let_def sorted_append set_quicksort_orders
          sorted_equal_part)
qed

lemma filter_key_three_way:
  fixes key :: "'a \<Rightarrow> 'k::linorder"
  shows "filter (\<lambda>o'. key o' = k) (filter (\<lambda>o'. key o' < p) xs)
         @ filter (\<lambda>o'. key o' = k) (filter (\<lambda>o'. key o' = p) xs)
         @ filter (\<lambda>o'. key o' = k) (filter (\<lambda>o'. key o' > p) xs)
         = filter (\<lambda>o'. key o' = k) xs"
proof -
  consider "k < p" | "k = p" | "p < k" by (rule linorder_cases)
  then show ?thesis
  proof cases
    case 1
    then have "(\<lambda>x. key x < p \<and> key x = k) = (\<lambda>x. key x = k)"
      "(\<lambda>x. key x = p \<and> key x = k) = (\<lambda>x. False)"
      "(\<lambda>x. p < key x \<and> key x = k) = (\<lambda>x. False)" by auto
    then show ?thesis by simp
  next
    case 2
    then have "(\<lambda>x. key x < p \<and> key x = k) = (\<lambda>x. False)"
      "(\<lambda>x. key x = p \<and> key x = k) = (\<lambda>x. key x = k)"
      "(\<lambda>x. p < key x \<and> key x = k) = (\<lambda>x. False)" by auto
    then show ?thesis by simp
  next
    case 3
    then have "(\<lambda>x. key x < p \<and> key x = k) = (\<lambda>x. False)"
      "(\<lambda>x. key x = p \<and> key x = k) = (\<lambda>x. False)"
      "(\<lambda>x. p < key x \<and> key x = k) = (\<lambda>x. key x = k)" by auto
    then show ?thesis by simp
  qed
qed

lemma stable_quicksort_orders:
  fixes key :: "'a \<Rightarrow> 'k::linorder"
  shows "filter (\<lambda>o'. key o' = k) (quicksort_orders orders key False) = filter (\<lambda>o'. key o' = k) orders"
proof (induction orders rule: partition_induct[where key = key])
  case (short orders)
  then show ?case by (simp add: quicksort_orders_short)
next
  case (step orders)
  show ?case
    using filter_key_three_way[of key k "key (orders ! (length orders div 2))" orders]
    by (simp add: quicksort_orders_step[OF step(1)] Let_def step(2,3))
qed

lemma quicksort_orders_is_stable_sort: "quicksort_orders orders key False = sort_key key orders"
proof (rule sym, rule properties_for_sort_key)
  show "mset (quicksort_orders orders key False) = mset orders" by (rule mset_quicksort_orders)
  show "sorted (map key (quicksort_orders orders key False))" by (rule sorted_quicksort_orders)
  fix k
  have "(\<lambda>x. key k = key x) = (\<lambda>x. key x = key k)" by auto
  then show "filter (\<lambda>x. key k = key x) (quicksort_orders orders key False) = filter (\<lambda>x. key k = key x) orders"
    by (simp add: stable_quicksort_orders)
qed

text \<open>
  Claim C1.  With \<open>reverse = False\<close> the keys of the result are non-decreasing, and
  the orders carrying any one key \<open>k\<close> appear in the result in the order in which
  they appear in the input (the sort is stable).  A list of more than one order is
  split around the key of the element at index \<open>length orders div 2\<close> into the orders
  with a smaller key, those with the same key and those with a larger key, each group
  in input order, and the result is the sorted first group, then the second group as
  it is, then the sorted third group.
\<close>

theorem quicksort_orders_ascending:
  fixes key :: "'a \<Rightarrow> 'k::linorder"
  shows "sorted (map key (quicksort_orders orders key False))
    \<and> (\<forall>k. filter (\<lambda>o'. key o' = k) (quicksort_orders orders key False) = filter (\<lambda>o'. key o' = k) orders)
    \<and> (1 < length orders \<longrightarrow>
         quicksort_orders orders key False =
           quicksort_orders (filter (\<lambda>o'. key o' < key (orders ! (length orders div 2))) orders) key False
           @ filter (\<lambda>o'. key o' = key (orders ! (length orders div 2))) orders
           @ quicksort_orders (filter (\<lambda>o'. key o' > key (orders ! (length orders div 2))) orders) key False)"
proof (intro conjI allI impI)
  show "sorted (map key (quicksort_orders orders key False))" by (rule sorted_quicksort_orders)
next
  fix k
  show "filter (\<lambda>o'. key o' = k) (quicksort_orders orders key False) = filter (\<lambda>o'. key o' = k) orders"
    by (rule stable_quicksort_orders)
next
  assume "1 < length orders"
  then have "\<not> length orders \<le> 1" by simp
  then show "quicksort_orders orders key False =
           quicksort_orders (filter (\<lambda>o'. key o' < key (orders ! (length orders div 2))) orders) key False
           @ filter (\<lambda>o'. key o' = key (orders ! (length orders div 2))) orders
           @ quicksort_orders (filter (\<lambda>o'. key o' > key (orders ! (length orders div 2))) orders) key False"
    by (simp add: quicksort_orders_step Let_def)
qed

theorem quicksort_orders_ascending_witness:
  "1 < length [(2::int, ''o1''), (1, ''o2''), (2, ''o3'')]
   \<and> sorted (map fst (quicksort_orders [(2::int, ''o1''), (1, ''o2''), (2, ''o3'')] fst False))
   \<and> filter (\<lambda>o'. fst o' = 2) (quicksort_orders [(2::int, ''o1''), (1, ''o2''), (2, ''o3'')] fst False)
       = [(2, ''o1''), (2, ''o3'')]
   \<and> quicksort_orders [(2::int, ''o1''), (1, ''o2''), (2, ''o3'')] fst False
       = quicksort_orders [] fst False @ [(1, ''o2'')] @ quicksort_orders [(2, ''o1''), (2, ''o3'')] fst False"
proof -
  let ?xs = "[(2::int, ''o1''), (1, ''o2''), (2, ''o3'')]"
  note t = quicksort_orders_ascending [of fst ?xs]
  have len: "1 < length ?xs" by simp
  have pivot: "?xs ! (length ?xs div 2) = (1, ''o2'')" by code_simp
  from t have s: "sorted (map fst (quicksort_orders ?xs fst False))" by blast
  from t have "filter (\<lambda>o'. fst o' = 2) (quicksort_orders ?xs fst False) = filter (\<lambda>o'. fst o' = 2) ?xs"
    by blast
  then have f: "filter (\<lambda>o'. fst o' = 2) (quicksort_orders ?xs fst False) = [(2, ''o1''), (2, ''o3'')]"
    by simp
  from t len have "quicksort_orders ?xs fst False =
           quicksort_orders (filter (\<lambda>o'. fst o' < fst (?xs ! (length ?xs div 2))) ?xs) fst False
           @ filter (\<lambda>o'. fst o' = fst (?xs ! (length ?xs div 2))) ?xs
           @ quicksort_orders (filter (\<lambda>o'. fst o' > fst (?xs ! (length ?xs div 2))) ?xs) fst False"
    by blast
  then have e: "quicksort_orders ?xs fst False
       = quicksort_orders [] fst False @ [(1, ''o2'')] @ quicksort_orders [(2, ''o1''), (2, ''o3'')] fst False"
    unfolding pivot by simp
  from len s f e show ?thesis by blast
qed

text \<open>
  Claim C10, as amended.  For every list of orders, every key function into totally
  ordered keys and either value of \<open>reverse\<close>, the returned list is a permutation of
  the input: every order occurs in it exactly as often as in the input.
\<close>

theorem quicksort_orders_permutation:
  fixes key :: "'a \<Rightarrow> 'k::linorder"
  shows "mset (quicksort_orders orders key reverse) = mset orders"
  by (rule mset_quicksort_orders)

text \<open>
  The claim as written, for every key function, fails when two keys are neither equal
  nor ordered.  With the sets \<open>{2}\<close> and \<open>{3}\<close> as keys, compared by inclusion as
  Python compares sets, the order with key \<open>{2}\<close> is in none of the three groups
  around the pivot key \<open>{3}\<close>, and the result has lost it.
\<close>

theorem quicksort_orders_incomparable_keys_counterexample:
  "quicksort_orders [(''o1'', {2 :: nat}), (''o2'', {3})] snd False = [(''o2'', {3})]
   \<and> mset (quicksort_orders [(''o1'', {2 :: nat}), (''o2'', {3})] snd False)
       \<noteq> mset [(''o1'', {2 :: nat}), (''o2'', {3})]"
proof -
  let ?xs = "[(''o1'', {2 :: nat}), (''o2'', {3})]"
  have "quicksort_orders ?xs snd False = [(''o2'', {3})]"
    by (subst quicksort_orders.simps) (simp add: quicksort_orders_short less_le)
  then show ?thesis by simp
qed

text \<open>
  Claim C2.  With \<open>reverse = True\<close> the flag is handed unchanged to both recursive
  calls and the concatenation is reversed at every level, not once at the end.  On the
  three orders with keys 2, 1, 2 the result is therefore \<open>o1, o3, o2\<close>, whereas the
  reverse of the ascending result is \<open>o3, o1, o2\<close>.
\<close>

theorem quicksort_orders_reverse_every_level:
  fixes key :: "'a \<Rightarrow> 'k::linorder"
  shows "(1 < length orders \<longrightarrow>
           quicksort_orders orders key True =
             rev (quicksort_orders (filter (\<lambda>o'. key o' < key (orders ! (length orders div 2))) orders) key True
                  @ filter (\<lambda>o'. key o' = key (orders ! (length orders div 2))) orders
                  @ quicksort_orders (filter (\<lambda>o'. key o' > key (orders ! (length orders div 2))) orders) key True))
    \<and> quicksort_orders [(2::int, ''o1''), (1, ''o2''), (2, ''o3'')] fst True
          = [(2, ''o1''), (2, ''o3''), (1, ''o2'')]
    \<and> rev (quicksort_orders [(2::int, ''o1''), (1, ''o2''), (2, ''o3'')] fst False)
          = [(2, ''o3''), (2, ''o1''), (1, ''o2'')]
    \<and> quicksort_orders [(2::int, ''o1''), (1, ''o2''), (2, ''o3'')] fst True
          \<noteq> rev (quicksort_orders [(2::int, ''o1''), (1, ''o2''), (2, ''o3'')] fst False)"
proof (intro conjI impI)
  assume "1 < length orders"
  then have "\<not> length orders \<le> 1" by simp
  then show "quicksort_orders orders key True =
             rev (quicksort_orders (filter (\<lambda>o'. key o' < key (orders ! (length orders div 2))) orders) key True
                  @ filter (\<lambda>o'. key o' = key (orders ! (length orders div 2))) orders
                  @ quicksort_orders (filter (\<lambda>o'. key o' > key (orders ! (length orders div 2))) orders) key True)"
    by (simp add: quicksort_orders_step Let_def)
next
  show "quicksort_orders [(2::int, ''o1''), (1, ''o2''), (2, ''o3'')] fst True
          = [(2, ''o1''), (2, ''o3''), (1, ''o2'')]"
    by code_simp
next
  show "rev (quicksort_orders [(2::int, ''o1''), (1, ''o2''), (2, ''o3'')] fst False)
          = [(2, ''o3''), (2, ''o1''), (1, ''o2'')]"
    by code_simp
next
  show "quicksort_orders [(2::int, ''o1''), (1, ''o2''), (2, ''o3'')] fst True
          \<noteq> rev (quicksort_orders [(2::int, ''o1''), (1, ''o2''), (2, ''o3'')] fst False)"
    by code_simp
qed

theorem quicksort_orders_reverse_every_level_witness:
  "1 < length [(2::int, ''o1''), (2, ''o3'')]
   \<and> quicksort_orders [(2::int, ''o1''), (2, ''o3'')] fst True
       = rev (quicksort_orders [] fst True @ [(2, ''o1''), (2, ''o3'')] @ quicksort_orders [] fst True)
   \<and> quicksort_orders [(2::int, ''o1''), (2, ''o3'')] fst True = [(2, ''o3''), (2, ''o1'')]"
proof -
  let ?xs = "[(2::int, ''o1''), (2, ''o3'')]"
  note t = quicksort_orders_reverse_every_level [of ?xs fst]
  have len: "1 < length ?xs" by simp
  have pivot: "?xs ! (length ?xs div 2) = (2, ''o3'')" by code_simp
  from t len have "quicksort_orders ?xs fst True =
             rev (quicksort_orders (filter (\<lambda>o'. fst o' < fst (?xs ! (length ?xs div 2))) ?xs) fst True
                  @ filter (\<lambda>o'. fst o' = fst (?xs ! (length ?xs div 2))) ?xs
                  @ quicksort_orders (filter (\<lambda>o'. fst o' > fst (?xs ! (length ?xs div 2))) ?xs) fst True)"
    by blast
  then have e: "quicksort_orders ?xs fst True
       = rev (quicksort_orders [] fst True @ [(2, ''o1''), (2, ''o3'')] @ quicksort_orders [] fst True)"
    unfolding pivot by simp
  then have v: "quicksort_orders ?xs fst True = [(2, ''o3''), (2, ''o1'')]"
    by (simp add: quicksort_orders_short)
  from len e v show ?thesis by blast
qed

text \<open>
  Because of the reversal at every level, the result for \<open>reverse = True\<close> need not
  be in descending order once the recursion is two levels deep, although the
  docstring of the routine announces a descending sort.
\<close>

lemma quicksort_orders_reverse_not_descending:
  "quicksort_orders [1, 2, 3, 4, 5 :: int] (\<lambda>x. x) True = [4, 5, 3, 1, 2]"
  by code_simp

section \<open>Properties of the ordering routine on list objects\<close>

lemma nth_prefix_store: "prefix st st' \<Longrightarrow> i < length st \<Longrightarrow> st' ! i = st ! i"
  by (auto simp: prefix_def nth_append)

lemma ref_short:
  "orders < length st \<Longrightarrow> length (st ! orders) \<le> 1 \<Longrightarrow>
   quicksort_orders_ref st orders key reverse = Some (length st, st @ [st ! orders])"
  by (subst quicksort_orders_ref.simps) simp

lemma ref_long:
  assumes "orders < length st" and "\<not> length (st ! orders) \<le> 1"
  shows "quicksort_orders_ref st orders key reverse =
     (let k = key ((st ! orders) ! (length (st ! orders) div 2));
          st3 = st @ [filter (\<lambda>o'. key o' < k) (st ! orders),
                      filter (\<lambda>o'. key o' = k) (st ! orders),
                      filter (\<lambda>o'. key o' > k) (st ! orders)]
      in case quicksort_orders_ref st3 (length st) key reverse of
           None \<Rightarrow> None
         | Some (a, st4) \<Rightarrow>
            (case quicksort_orders_ref (st4 @ [st4 ! a @ st4 ! Suc (length st)]) (Suc (Suc (length st))) key reverse of
               None \<Rightarrow> None
             | Some (b, st6) \<Rightarrow>
                 Some (length st6, st6 @ [if reverse then rev (st6 ! length st4 @ st6 ! b)
                                          else st6 ! length st4 @ st6 ! b])))"
  using assms
  by (subst quicksort_orders_ref.simps)
     (simp add: Let_def nth_append split: option.splits prod.splits)

lemma ref_returns_sorted:
  "orders < length st \<Longrightarrow>
   \<exists>r st'. quicksort_orders_ref st orders key reverse = Some (r, st')
      \<and> prefix st st' \<and> length st \<le> r \<and> r < length st'
      \<and> st' ! r = quicksort_orders (st ! orders) key reverse"
proof (induction "length (st ! orders)" arbitrary: st orders rule: less_induct)
  case less
  note valid = less.prems
  show ?case
  proof (cases "length (st ! orders) \<le> 1")
    case True
    with valid show ?thesis by (simp add: ref_short quicksort_orders_short)
  next
    case False
    define xs where "xs = st ! orders"
    define k where "k = key (xs ! (length xs div 2))"
    define L where "L = filter (\<lambda>o'. key o' < k) xs"
    define E where "E = filter (\<lambda>o'. key o' = k) xs"
    define G where "G = filter (\<lambda>o'. key o' > k) xs"
    define st3 where "st3 = st @ [L, E, G]"
    have p: "xs ! (length xs div 2) \<in> set xs" using False by (simp add: xs_def pivot_in_orders)
    have "length (st3 ! length st) < length (st ! orders)"
      using less_part_shorter[OF p, of key] by (simp add: st3_def L_def k_def xs_def)
    from less.hyps[OF this] obtain a st4 where
      c1: "quicksort_orders_ref st3 (length st) key reverse = Some (a, st4)" and
      f1: "prefix st3 st4" "length st3 \<le> a" "a < length st4" and
      a: "st4 ! a = quicksort_orders L key reverse"
      by (auto simp: st3_def)
    have len4: "length st + 3 \<le> length st4" using prefix_length_le[OF f1(1)] by (simp add: st3_def)
    have e4: "st4 ! Suc (length st) = E"
      using nth_prefix_store[OF f1(1), of "Suc (length st)"] by (simp add: st3_def nth_append)
    have g4: "st4 ! Suc (Suc (length st)) = G"
      using nth_prefix_store[OF f1(1), of "Suc (Suc (length st))"] by (simp add: st3_def nth_append)
    define st5 where "st5 = st4 @ [st4 ! a @ st4 ! Suc (length st)]"
    have g5: "st5 ! Suc (Suc (length st)) = G" using len4 g4 by (simp add: st5_def nth_append)
    have v5: "Suc (Suc (length st)) < length st5" using len4 by (simp add: st5_def)
    have "length (st5 ! Suc (Suc (length st))) < length (st ! orders)"
      using greater_part_shorter[OF p, of key] by (simp add: g5 G_def k_def xs_def)
    from less.hyps[OF this v5] obtain b st6 where
      c2: "quicksort_orders_ref st5 (Suc (Suc (length st))) key reverse = Some (b, st6)" and
      f2: "prefix st5 st6" and
      b: "st6 ! b = quicksort_orders G key reverse"
      by (auto simp: g5)
    have front: "st6 ! length st4 = quicksort_orders L key reverse @ E"
      using nth_prefix_store[OF f2, of "length st4"] by (simp add: st5_def a e4)
    have "prefix st st3" by (simp add: st3_def)
    also note f1(1)
    also have "prefix st4 st5" by (simp add: st5_def)
    also note f2
    finally have p6: "prefix st st6" .
    have "quicksort_orders_ref st orders key reverse =
            Some (length st6, st6 @ [if reverse then rev (st6 ! length st4 @ st6 ! b)
                                     else st6 ! length st4 @ st6 ! b])"
      using c1 c2
      by (simp add: ref_long[OF valid False] Let_def st3_def st5_def L_def E_def G_def k_def xs_def)
    moreover have "prefix st (st6 @ [zs])" for zs
      using p6 by (auto simp: prefix_def)
    moreover have "length st \<le> length st6" using p6 by (rule prefix_length_le)
    moreover have "(if reverse then rev (st6 ! length st4 @ st6 ! b) else st6 ! length st4 @ st6 ! b)
         = quicksort_orders (st ! orders) key reverse"
      using False by (simp add: quicksort_orders_step Let_def front b L_def E_def G_def k_def xs_def)
    ultimately show ?thesis by simp
  qed
qed

text \<open>
  Claim C9.  Called on any list of the store, with any key function and either value
  of \<open>reverse\<close>, the routine returns a reference to a list created during the call,
  hence different from its argument; every list that existed before the call, the
  input among them, has the contents it had before; the new list holds the ordered
  sequence.  For an input of length at most one the new list is equal to the input.
  Overwriting the returned list afterwards does not change the input.
\<close>

theorem quicksort_orders_ref_new_list:
  assumes "orders < length st"
  shows "\<exists>result st'. quicksort_orders_ref st orders key reverse = Some (result, st')
      \<and> result \<noteq> orders \<and> length st \<le> result \<and> result < length st'
      \<and> (\<forall>r < length st. st' ! r = st ! r)
      \<and> st' ! result = quicksort_orders (st ! orders) key reverse
      \<and> (length (st ! orders) \<le> 1 \<longrightarrow> st' ! result = st ! orders)
      \<and> (\<forall>v. (st'[result := v]) ! orders = st ! orders)"
proof -
  from ref_returns_sorted[OF assms] obtain result st' where
    c: "quicksort_orders_ref st orders key reverse = Some (result, st')" and
    f: "prefix st st'" "length st \<le> result" "result < length st'" and
    s: "st' ! result = quicksort_orders (st ! orders) key reverse"
    by blast
  have ne: "result \<noteq> orders" using f(2) assms by simp
  have old: "\<forall>r < length st. st' ! r = st ! r" using nth_prefix_store[OF f(1)] by simp
  have copy: "length (st ! orders) \<le> 1 \<longrightarrow> st' ! result = st ! orders"
    by (simp add: s quicksort_orders_short)
  have indep: "\<forall>v. (st'[result := v]) ! orders = st ! orders"
    using ne old assms by simp
  from c ne f(2,3) old s copy indep show ?thesis by blast
qed

theorem quicksort_orders_ref_new_list_witness:
  "0 < length [[(2::int, ''o1'')]]
   \<and> length ([[(2::int, ''o1'')]] ! 0) \<le> 1
   \<and> (\<exists>result st'. quicksort_orders_ref [[(2::int, ''o1'')]] 0 fst True = Some (result, st')
         \<and> result \<noteq> 0 \<and> st' ! 0 = [(2, ''o1'')] \<and> st' ! result = [(2, ''o1'')]
         \<and> (st'[result := []]) ! 0 = [(2, ''o1'')])
   \<and> 0 < length [[(2::int, ''o1''), (1, ''o2''), (2, ''o3'')]]
   \<and> (\<exists>result st'. quicksort_orders_ref [[(2::int, ''o1''), (1, ''o2''), (2, ''o3'')]] 0 fst True
            = Some (result, st')
         \<and> result \<noteq> 0 \<and> st' ! 0 = [(2, ''o1''), (1, ''o2''), (2, ''o3'')]
         \<and> st' ! result = [(2, ''o1''), (2, ''o3''), (1, ''o2'')])"
proof -
  let ?one = "[[(2::int, ''o1'')]]"
  let ?three = "[[(2::int, ''o1''), (1, ''o2''), (2, ''o3'')]]"
  have v1: "0 < length ?one" and s1: "length (?one ! 0) \<le> 1" by simp_all
  have v3: "0 < length ?three" by simp
  have q3: "quicksort_orders (?three ! 0) fst True = [(2, ''o1''), (2, ''o3''), (1, ''o2'')]"
    by code_simp
  from quicksort_orders_ref_new_list [OF v1, of fst True] s1
  have a: "\<exists>result st'. quicksort_orders_ref ?one 0 fst True = Some (result, st')
         \<and> result \<noteq> 0 \<and> st' ! 0 = [(2, ''o1'')] \<and> st' ! result = [(2, ''o1'')]
         \<and> (st'[result := []]) ! 0 = [(2, ''o1'')]"
    by fastforce
  from quicksort_orders_ref_new_list [OF v3, of fst True] q3
  have b: "\<exists>result st'. quicksort_orders_ref ?three 0 fst True = Some (result, st')
         \<and> result \<noteq> 0 \<and> st' ! 0 = [(2, ''o1''), (1, ''o2''), (2, ''o3'')]
         \<and> st' ! result = [(2, ''o1''), (2, ''o3''), (1, ''o2'')]"
    by fastforce
  from v1 s1 a v3 b show ?thesis by blast
qed

section \<open>What the contact patterns accept\<close>

lemma match_pieces_Piece_nat:
  "match_pieces (Piece cls lo hi # ps) s \<longleftrightarrow>
     (\<exists>n. lo \<le> n \<and> n \<le> (case hi of None \<Rightarrow> length s | Some h \<Rightarrow> min h (length s))
        \<and> list_all cls (take n s) \<and> match_pieces ps (drop n s))"
  by (auto simp: list_ex_iff less_Suc_eq_le)

lemma match_pieces_Piece_iff:
  "match_pieces (Piece cls lo hi # ps) s \<longleftrightarrow>
     (\<exists>a b. s = a @ b \<and> lo \<le> length a \<and> (case hi of None \<Rightarrow> True | Some h \<Rightarrow> length a \<le> h)
        \<and> list_all cls a \<and> match_pieces ps b)"
proof
  assume "match_pieces (Piece cls lo hi # ps) s"
  then obtain n where n: "lo \<le> n" "n \<le> (case hi of None \<Rightarrow> length s | Some h \<Rightarrow> min h (length s))"
    and m: "list_all cls (take n s)" "match_pieces ps (drop n s)"
    unfolding match_pieces_Piece_nat by blast
  from n(2) have le: "n \<le> length s" by (cases hi) auto
  from n(2) have "case hi of None \<Rightarrow> True | Some h \<Rightarrow> n \<le> h" by (cases hi) auto
  with le n(1) m have "s = take n s @ drop n s \<and> lo \<le> length (take n s)
      \<and> (case hi of None \<Rightarrow> True | Some h \<Rightarrow> length (take n s) \<le> h)
      \<and> list_all cls (take n s) \<and> match_pieces ps (drop n s)"
    by (cases hi) (simp_all add: min_absorb2)
  then show "\<exists>a b. s = a @ b \<and> lo \<le> length a \<and> (case hi of None \<Rightarrow> True | Some h \<Rightarrow> length a \<le> h)
        \<and> list_all cls a \<and> match_pieces ps b"
    by blast
next
  assume "\<exists>a b. s = a @ b \<and> lo \<le> length a \<and> (case hi of None \<Rightarrow> True | Some h \<Rightarrow> length a \<le> h)
        \<and> list_all cls a \<and> match_pieces ps b"
  then obtain a b where s: "s = a @ b" and lo: "lo \<le> length a"
    and hi: "case hi of None \<Rightarrow> True | Some h \<Rightarrow> length a \<le> h"
    and m: "list_all cls a" "match_pieces ps b"
    by blast
  from hi have "length a \<le> (case hi of None \<Rightarrow> length s | Some h \<Rightarrow> min h (length s))"
    by (cases hi) (auto simp: s)
  moreover from m have "list_all cls (take (length a) s)" "match_pieces ps (drop (length a) s)"
    by (simp_all add: s)
  ultimately show "match_pieces (Piece cls lo hi # ps) s"
    unfolding match_pieces_Piece_nat using lo by blast
qed

lemma match_pieces_single:
  "match_pieces (Piece (\<lambda>c. c = k) 1 (Some 1) # ps) s \<longleftrightarrow> (\<exists>b. s = k # b \<and> match_pieces ps b)"
proof -
  have one: "(1 \<le> length a \<and> length a \<le> 1 \<and> list_all (\<lambda>c. c = k) a) \<longleftrightarrow> a = [k]" for a :: str
    by (cases a) auto
  have "match_pieces (Piece (\<lambda>c. c = k) 1 (Some 1) # ps) s \<longleftrightarrow>
        (\<exists>a b. s = a @ b \<and> (1 \<le> length a \<and> length a \<le> 1 \<and> list_all (\<lambda>c. c = k) a) \<and> match_pieces ps b)"
    unfolding match_pieces_Piece_iff by auto
  also have "\<dots> \<longleftrightarrow> (\<exists>b. s = k # b \<and> match_pieces ps b)"
    unfolding one by auto
  finally show ?thesis .
qed

lemma match_pieces_plus:
  "match_pieces (Piece cls 1 None # ps) s \<longleftrightarrow>
     (\<exists>a b. s = a @ b \<and> a \<noteq> [] \<and> list_all cls a \<and> match_pieces ps b)"
proof -
  have ne: "1 \<le> length a \<longleftrightarrow> a \<noteq> []" for a :: str
    by (cases a) auto
  show ?thesis unfolding match_pieces_Piece_iff by (simp add: Suc_le_eq)
qed

lemma match_pieces_end: "match_pieces [] s \<longleftrightarrow> s = [] \<or> s = [10]"
  by simp

lemma EMAIL_RE_language:
  "match_pieces (EMAIL_RE U) s \<longleftrightarrow>
     (\<exists>local domain tld nl. s = local @ 64 # domain @ 46 # tld @ nl
        \<and> local \<noteq> [] \<and> list_all (\<lambda>c. is_word U c \<or> c = 46 \<or> c = 45) local
        \<and> domain \<noteq> [] \<and> list_all (\<lambda>c. is_word U c \<or> c = 46 \<or> c = 45) domain
        \<and> tld \<noteq> [] \<and> list_all (is_word U) tld
        \<and> (nl = [] \<or> nl = [10]))"
  unfolding EMAIL_RE_def match_pieces_plus match_pieces_single match_pieces_end
  by (rule iffI; clarify) (blast+)

lemma PHONE_RE_language:
  "match_pieces (PHONE_RE U) s \<longleftrightarrow>
     (\<exists>sign digits nl. s = sign @ digits @ nl \<and> (sign = [] \<or> sign = [43])
        \<and> 7 \<le> length digits \<and> length digits \<le> 15 \<and> list_all (is_digit U) digits
        \<and> (nl = [] \<or> nl = [10]))"
proof -
  have sign: "(length a \<le> 1 \<and> list_all (\<lambda>c. c = 43) a) \<longleftrightarrow> (a = [] \<or> a = [43])" for a :: str
    by (cases a) auto
  have "match_pieces (PHONE_RE U) s \<longleftrightarrow>
     (\<exists>a b. s = a @ b \<and> (length a \<le> 1 \<and> list_all (\<lambda>c. c = 43) a)
        \<and> (\<exists>d n. b = d @ n \<and> 7 \<le> length d \<and> length d \<le> 15 \<and> list_all (is_digit U) d
              \<and> (n = [] \<or> n = [10])))"
    unfolding PHONE_RE_def match_pieces_Piece_iff match_pieces_end by simp
  also have "\<dots> \<longleftrightarrow> (\<exists>sign digits nl. s = sign @ digits @ nl \<and> (sign = [] \<or> sign = [43])
        \<and> 7 \<le> length digits \<and> length digits \<le> 15 \<and> list_all (is_digit U) digits
        \<and> (nl = [] \<or> nl = [10]))"
    unfolding sign by (rule iffI; clarify) (blast+)
  finally show ?thesis .
qed

section \<open>Properties of the entities\<close>

lemma length_generate_id: "length (generate_id rnd) = 32"
  by (simp add: generate_id_def hex32_def)

lemma generate_id_nonempty: "generate_id rnd \<noteq> []"
  using length_generate_id[of rnd] by auto

text \<open>
  Claim C7.  For every name and sku argument, constructing a \<open>Product\<close> with a
  negative price raises the validation error for a negative price and yields no
  object; with a price that is not negative it yields a product whose sku is a
  non-empty string: the sku supplied, or the generated identifier when none (or an
  empty one) was supplied.
\<close>

theorem Product_init_price:
  "(price < 0 \<longrightarrow>
      Product_init rnd name price sku = Inl (ValidationError (lit ''Price cannot be negative'')))
   \<and> (0 \<le> price \<longrightarrow>
      (\<exists>p s. Product_init rnd name price sku = Inr p
         \<and> product_name p = name \<and> product_price p = price
         \<and> product_sku p = Some s \<and> s \<noteq> []
         \<and> s = (if truthy sku then the sku else generate_id rnd)))"
proof (intro conjI impI)
  assume "price < 0"
  then show "Product_init rnd name price sku = Inl (ValidationError (lit ''Price cannot be negative''))"
    by (simp add: Product_init_def)
next
  assume "0 \<le> price"
  then have "\<not> price < 0" by simp
  then show "\<exists>p s. Product_init rnd name price sku = Inr p
         \<and> product_name p = name \<and> product_price p = price
         \<and> product_sku p = Some s \<and> s \<noteq> []
         \<and> s = (if truthy sku then the sku else generate_id rnd)"
    by (cases sku) (auto simp: Product_init_def generate_id_nonempty)
qed

theorem Product_init_price_witness:
  "(-1 :: real) < 0
   \<and> Product_init 0 (lit ''X'') (-1) None = Inl (ValidationError (lit ''Price cannot be negative''))
   \<and> (0 :: real) \<le> 10
   \<and> (\<exists>p s. Product_init 0 (lit ''Widget'') 10 None = Inr p
         \<and> product_price p = 10 \<and> product_sku p = Some s \<and> s \<noteq> [] \<and> s = generate_id 0)"
proof -
  have neg: "(-1 :: real) < 0" and pos: "(0 :: real) \<le> 10" by simp_all
  from Product_init_price [of "-1" 0 "lit ''X''" None] neg
  have a: "Product_init 0 (lit ''X'') (-1) None = Inl (ValidationError (lit ''Price cannot be negative''))"
    by blast
  from Product_init_price [of 10 0 "lit ''Widget''" None] pos
  have b: "\<exists>p s. Product_init 0 (lit ''Widget'') 10 None = Inr p
         \<and> product_price p = 10 \<and> product_sku p = Some s \<and> s \<noteq> [] \<and> s = generate_id 0"
    by fastforce
  from neg a pos b show ?thesis by blast
qed



text \<open>
  Claim C3.  For every person or customer and every string: if the string does not
  match the email pattern, assigning it to \<open>email\<close> raises a validation error and
  the object is exactly as before; if it matches, the assignment succeeds and the
  string is the stored email.  The same holds for \<open>phone\<close> and the phone pattern.
\<close>

theorem setters_validate_then_store:
  "(\<not> match_pieces (EMAIL_RE U) v \<longrightarrow>
      set_email U self v = (Inl (ValidationError (lit ''Invalid email: '' @ v)), self))
   \<and> (match_pieces (EMAIL_RE U) v \<longrightarrow>
      set_email U self v = (Inr (), self\<lparr>person_email := Some v\<rparr>))
   \<and> (\<not> match_pieces (PHONE_RE U) v \<longrightarrow>
      set_phone U self v = (Inl (ValidationError (lit ''Invalid phone number: '' @ v)), self))
   \<and> (match_pieces (PHONE_RE U) v \<longrightarrow>
      set_phone U self v = (Inr (), self\<lparr>person_phone := Some v\<rparr>))"
  by (simp add: set_email_def set_phone_def)

theorem setters_validate_then_store_witness:
  "\<not> match_pieces (EMAIL_RE ascii_only) (lit ''not-an-email'')
   \<and> set_email ascii_only
         \<lparr>person_name = lit ''Ivan'', person_email = Some (lit ''i@example.com''), person_phone = None\<rparr>
         (lit ''not-an-email'')
       = (Inl (ValidationError (lit ''Invalid email: not-an-email'')),
          \<lparr>person_name = lit ''Ivan'', person_email = Some (lit ''i@example.com''), person_phone = None\<rparr>)
   \<and> match_pieces (EMAIL_RE ascii_only) (lit ''a@example.com'')
   \<and> set_email ascii_only
         \<lparr>person_name = lit ''Ivan'', person_email = Some (lit ''i@example.com''), person_phone = None\<rparr>
         (lit ''a@example.com'')
       = (Inr (),
          \<lparr>person_name = lit ''Ivan'', person_email = Some (lit ''a@example.com''), person_phone = None\<rparr>)
   \<and> \<not> match_pieces (PHONE_RE ascii_only) (lit ''abc'')
   \<and> set_phone ascii_only
         \<lparr>person_name = lit ''Ivan'', person_email = Some (lit ''i@example.com''), person_phone = None\<rparr>
         (lit ''abc'')
       = (Inl (ValidationError (lit ''Invalid phone number: abc'')),
          \<lparr>person_name = lit ''Ivan'', person_email = Some (lit ''i@example.com''), person_phone = None\<rparr>)
   \<and> match_pieces (PHONE_RE ascii_only) (lit ''+1234567890'')
   \<and> set_phone ascii_only
         \<lparr>person_name = lit ''Ivan'', person_email = Some (lit ''i@example.com''), person_phone = None\<rparr>
         (lit ''+1234567890'')
       = (Inr (),
          \<lparr>person_name = lit ''Ivan'', person_email = Some (lit ''i@example.com''),
           person_phone = Some (lit ''+1234567890'')\<rparr>)"
proof -
  let ?ivan = "\<lparr>person_name = lit ''Ivan'', person_email = Some (lit ''i@example.com''), person_phone = None\<rparr>"
  have e1: "\<not> match_pieces (EMAIL_RE ascii_only) (lit ''not-an-email'')" by code_simp
  have e2: "match_pieces (EMAIL_RE ascii_only) (lit ''a@example.com'')" by code_simp
  have p1: "\<not> match_pieces (PHONE_RE ascii_only) (lit ''abc'')" by code_simp
  have p2: "match_pieces (PHONE_RE ascii_only) (lit ''+1234567890'')" by code_simp
  from setters_validate_then_store [of ascii_only "lit ''not-an-email''" ?ivan] e1
  have a: "set_email ascii_only ?ivan (lit ''not-an-email'')
            = (Inl (ValidationError (lit ''Invalid email: not-an-email'')), ?ivan)"
    by (simp add: lit_def)
  from setters_validate_then_store [of ascii_only "lit ''a@example.com''" ?ivan] e2
  have b: "set_email ascii_only ?ivan (lit ''a@example.com'')
            = (Inr (), \<lparr>person_name = lit ''Ivan'', person_email = Some (lit ''a@example.com''), person_phone = None\<rparr>)"
    by simp
  from setters_validate_then_store [of ascii_only "lit ''abc''" ?ivan] p1
  have c: "set_phone ascii_only ?ivan (lit ''abc'')
            = (Inl (ValidationError (lit ''Invalid phone number: abc'')), ?ivan)"
    by (simp add: lit_def)
  from setters_validate_then_store [of ascii_only "lit ''+1234567890''" ?ivan] p2
  have d: "set_phone ascii_only ?ivan (lit ''+1234567890'')
            = (Inr (), \<lparr>person_name = lit ''Ivan'', person_email = Some (lit ''i@example.com''),
                        person_phone = Some (lit ''+1234567890'')\<rparr>)"
    by simp
  from e1 a e2 b p1 c p2 d show ?thesis by blast
qed

lemma Person_init_eq:
  "Person_init U name email phone =
     (if truthy email \<and> \<not> match_pieces (EMAIL_RE U) (the email)
      then Inl (ValidationError (lit ''Invalid email: '' @ the email))
      else if truthy phone \<and> \<not> match_pieces (PHONE_RE U) (the phone)
      then Inl (ValidationError (lit ''Invalid phone number: '' @ the phone))
      else Inr \<lparr>person_name = name,
                person_email = (if truthy email then email else None),
                person_phone = (if truthy phone then phone else None)\<rparr>)"
  by (cases email; cases phone) (auto simp: Person_init_def set_email_def set_phone_def)

text \<open>
  Claim C6, as amended.  \<open>Person.__init__\<close> guards both assignments with
  \<open>if email:\<close> and \<open>if phone:\<close>, so an argument that is \<open>None\<close> or the empty
  string is skipped.  A non-empty email goes through the email setter and a non-empty
  phone, after it, through the phone setter; the first validation error is the outcome
  of the construction, and no customer is produced.  When neither setter fails, the
  customer holds the non-empty values, no email or phone where the argument was
  omitted or empty, and an empty order list.
\<close>

theorem Customer_init_validates_nonempty:
  "(truthy email \<and> fst (set_email U p (the email)) = Inl e
      \<longrightarrow> Customer_init U rnd name email phone city cid = Inl e)
   \<and> ((truthy email \<longrightarrow> fst (set_email U p (the email)) = Inr ())
        \<and> truthy phone \<and> fst (set_phone U q (the phone)) = Inl e
      \<longrightarrow> Customer_init U rnd name email phone city cid = Inl e)
   \<and> ((truthy email \<longrightarrow> fst (set_email U p (the email)) = Inr ())
        \<and> (truthy phone \<longrightarrow> fst (set_phone U q (the phone)) = Inr ())
      \<longrightarrow> Customer_init U rnd name email phone city cid =
            Inr \<lparr>person_name = name,
                 person_email = (if truthy email then email else None),
                 person_phone = (if truthy phone then phone else None),
                 customer_city = city,
                 customer_id = (if truthy cid then the cid else generate_id rnd),
                 customer_orders = []\<rparr>)"
  by (auto simp: Customer_init_def Person_init_eq set_email_def set_phone_def split: if_splits)

text \<open>
  The claim as written fails for the empty string: assigning it to \<open>email\<close> raises
  the validation error, but a construction that supplies it as the email succeeds.
\<close>

theorem Customer_init_empty_email_counterexample:
  "fst (set_email ascii_only \<lparr>person_name = lit ''Ivan'', person_email = None, person_phone = None\<rparr> [])
     = Inl (ValidationError (lit ''Invalid email: ''))
   \<and> Customer_init ascii_only 0 (lit ''Ivan'') (Some []) None None (Some (lit ''c1''))
     = Inr \<lparr>person_name = lit ''Ivan'', person_email = None, person_phone = None,
            customer_city = None, customer_id = lit ''c1'', customer_orders = []\<rparr>"
proof
  have "\<not> match_pieces (EMAIL_RE ascii_only) []" by code_simp
  then show "fst (set_email ascii_only \<lparr>person_name = lit ''Ivan'', person_email = None, person_phone = None\<rparr> [])
     = Inl (ValidationError (lit ''Invalid email: ''))"
    by (simp add: set_email_def)
  show "Customer_init ascii_only 0 (lit ''Ivan'') (Some []) None None (Some (lit ''c1''))
     = Inr \<lparr>person_name = lit ''Ivan'', person_email = None, person_phone = None,
            customer_city = None, customer_id = lit ''c1'', customer_orders = []\<rparr>"
    by (simp add: Customer_init_def Person_init_def lit_def)
qed

theorem Customer_init_validates_nonempty_witness:
  "truthy (Some (lit ''not-an-email''))
   \<and> fst (set_email ascii_only \<lparr>person_name = [], person_email = None, person_phone = None\<rparr>
            (the (Some (lit ''not-an-email''))))
       = Inl (ValidationError (lit ''Invalid email: not-an-email''))
   \<and> Customer_init ascii_only 0 (lit ''Ann'') (Some (lit ''not-an-email'')) (Some (lit ''+1234567890'')) None None
       = Inl (ValidationError (lit ''Invalid email: not-an-email''))
   \<and> truthy (Some (lit ''abc''))
   \<and> Customer_init ascii_only 0 (lit ''Ann'') (Some (lit ''a@example.com'')) (Some (lit ''abc'')) None None
       = Inl (ValidationError (lit ''Invalid phone number: abc''))
   \<and> Customer_init ascii_only 0 (lit ''Ann'') (Some (lit ''a@example.com'')) (Some (lit ''+1234567890''))
         None (Some (lit ''c1''))
       = Inr \<lparr>person_name = lit ''Ann'', person_email = Some (lit ''a@example.com''),
              person_phone = Some (lit ''+1234567890''), customer_city = None,
              customer_id = lit ''c1'', customer_orders = []\<rparr>"
proof -
  let ?p = "\<lparr>person_name = [], person_email = None, person_phone = None\<rparr>"
  let ?bad = "Some (lit ''not-an-email'')" and ?good = "Some (lit ''a@example.com'')"
  let ?badp = "Some (lit ''abc'')" and ?goodp = "Some (lit ''+1234567890'')"
  have e1: "\<not> match_pieces (EMAIL_RE ascii_only) (lit ''not-an-email'')" by code_simp
  have e2: "match_pieces (EMAIL_RE ascii_only) (lit ''a@example.com'')" by code_simp
  have p1: "\<not> match_pieces (PHONE_RE ascii_only) (lit ''abc'')" by code_simp
  have p2: "match_pieces (PHONE_RE ascii_only) (lit ''+1234567890'')" by code_simp
  have t: "truthy ?bad" "truthy ?good" "truthy ?badp" "truthy ?goodp" by (simp_all add: lit_def)
  have se1: "fst (set_email ascii_only ?p (the ?bad)) = Inl (ValidationError (lit ''Invalid email: not-an-email''))"
    using e1 by (simp add: set_email_def lit_def)
  have se2: "fst (set_email ascii_only ?p (the ?good)) = Inr ()"
    using e2 by (simp add: set_email_def)
  have sp1: "fst (set_phone ascii_only ?p (the ?badp)) = Inl (ValidationError (lit ''Invalid phone number: abc''))"
    using p1 by (simp add: set_phone_def lit_def)
  have sp2: "fst (set_phone ascii_only ?p (the ?goodp)) = Inr ()"
    using p2 by (simp add: set_phone_def)
  from Customer_init_validates_nonempty
         [of ?bad ascii_only ?p "ValidationError (lit ''Invalid email: not-an-email'')" 0 "lit ''Ann''" ?goodp None None ?p]
       t(1) se1
  have a: "Customer_init ascii_only 0 (lit ''Ann'') ?bad ?goodp None None
       = Inl (ValidationError (lit ''Invalid email: not-an-email''))"
    by blast
  from Customer_init_validates_nonempty
         [of ?good ascii_only ?p "ValidationError (lit ''Invalid phone number: abc'')" 0 "lit ''Ann''" ?badp None None ?p]
       t(3) se2 sp1
  have b: "Customer_init ascii_only 0 (lit ''Ann'') ?good ?badp None None
       = Inl (ValidationError (lit ''Invalid phone number: abc''))"
    by blast
  from Customer_init_validates_nonempty
         [of ?good ascii_only ?p "ValidationError []" 0 "lit ''Ann''" ?goodp None "Some (lit ''c1'')" ?p]
       se2 sp2
  have "Customer_init ascii_only 0 (lit ''Ann'') ?good ?goodp None (Some (lit ''c1'')) =
            Inr \<lparr>person_name = lit ''Ann'',
                 person_email = (if truthy ?good then ?good else None),
                 person_phone = (if truthy ?goodp then ?goodp else None),
                 customer_city = None,
                 customer_id = (if truthy (Some (lit ''c1'')) then the (Some (lit ''c1'')) else generate_id 0),
                 customer_orders = []\<rparr>"
    by blast
  then have c: "Customer_init ascii_only 0 (lit ''Ann'') ?good ?goodp None (Some (lit ''c1''))
       = Inr \<lparr>person_name = lit ''Ann'', person_email = ?good,
              person_phone = ?goodp, customer_city = None,
              customer_id = lit ''c1'', customer_orders = []\<rparr>"
    by (simp add: lit_def)
  from t(1) se1 a t(3) b c show ?thesis by blast
qed

lemma truthy_or_generated: "(if truthy oid then the oid else generate_id rnd) \<noteq> []"
  by (cases oid) (auto simp: generate_id_nonempty)

text \<open>
  Claim C4, as amended.  For every customer and all arguments, the order is completely
  initialised (a non-empty identifier, the customer, a list of items and a creation
  time) before the registration is attempted.  If the registration returns, or raises
  an exception that is an instance of \<open>Exception\<close>, the constructor returns the order.
  An exception that is not an instance of \<open>Exception\<close> is not caught by
  \<open>except Exception\<close> and leaves the constructor.
\<close>

theorem Order_init_swallows_Exception:
  "\<exists>obj. order_id obj = (if truthy oid then the oid else generate_id rnd)
      \<and> order_id obj \<noteq> []
      \<and> order_customer obj = customer
      \<and> order_items obj = (case items of None \<Rightarrow> [] | Some xs \<Rightarrow> xs)
      \<and> order_created_at obj = (case created_at of None \<Rightarrow> now | Some t \<Rightarrow> t)
      \<and> (\<forall>out h2. add_order (h\<lparr>order_objs := order_objs h @ [obj]\<rparr>) customer (length (order_objs h)) = (out, h2)
            \<longrightarrow> (case out of Inr u \<Rightarrow> True | Inl e \<Rightarrow> is_Exception e)
            \<longrightarrow> Order_init add_order rnd now h customer items created_at oid
                  = (Inr (length (order_objs h)), h2))
      \<and> (\<forall>e h2. add_order (h\<lparr>order_objs := order_objs h @ [obj]\<rparr>) customer (length (order_objs h)) = (Inl e, h2)
            \<longrightarrow> \<not> is_Exception e
            \<longrightarrow> Order_init add_order rnd now h customer items created_at oid = (Inl e, h2))"
proof -
  define obj where "obj = \<lparr>order_id = (if truthy oid then the oid else generate_id rnd),
                 order_customer = customer,
                 order_items = (case items of None \<Rightarrow> [] | Some xs \<Rightarrow> if xs \<noteq> [] then xs else []),
                 order_created_at = (case created_at of None \<Rightarrow> now | Some t \<Rightarrow> t)\<rparr>"
  have 1: "order_id obj = (if truthy oid then the oid else generate_id rnd)" by (simp add: obj_def)
  have 2: "order_id obj \<noteq> []" unfolding 1 by (rule truthy_or_generated)
  have 3: "order_customer obj = customer" by (simp add: obj_def)
  have 4: "order_items obj = (case items of None \<Rightarrow> [] | Some xs \<Rightarrow> xs)"
    by (cases items) (simp_all add: obj_def)
  have 5: "order_created_at obj = (case created_at of None \<Rightarrow> now | Some t \<Rightarrow> t)" by (simp add: obj_def)
  have 6: "Order_init add_order rnd now h customer items created_at oid = (Inr (length (order_objs h)), h2)"
    if "add_order (h\<lparr>order_objs := order_objs h @ [obj]\<rparr>) customer (length (order_objs h)) = (out, h2)"
      and "case out of Inr u \<Rightarrow> True | Inl e \<Rightarrow> is_Exception e" for out h2
    using that by (cases out) (simp_all add: Order_init_def Let_def obj_def)
  have 7: "Order_init add_order rnd now h customer items created_at oid = (Inl e, h2)"
    if "add_order (h\<lparr>order_objs := order_objs h @ [obj]\<rparr>) customer (length (order_objs h)) = (Inl e, h2)"
      and "\<not> is_Exception e" for e h2
    using that by (simp add: Order_init_def Let_def obj_def)
  from 1 2 3 4 5 6 7 show ?thesis by blast
qed

text \<open>
  The claim as written, "any exception", fails for a registration that raises
  \<open>KeyboardInterrupt\<close>: no order is returned.
\<close>

theorem Order_init_interrupted_counterexample:
  "fst (Order_init interrupted_add_order 0 0 empty_heap 0 None None None)
     = Inl (BaseException (lit ''KeyboardInterrupt''))"
  by (simp add: Order_init_def interrupted_add_order_def Let_def)

theorem Order_init_swallows_Exception_witness:
  "fst (Customer_add_order
          \<lparr>product_objs = [], customer_objs = [],
           order_objs = [\<lparr>order_id = lit ''o1'', order_customer = 0, order_items = [], order_created_at = 7\<rparr>]\<rparr>
          0 0)
     = Inl (Exception (lit ''AttributeError''))
   \<and> is_Exception (Exception (lit ''AttributeError''))
   \<and> Order_init Customer_add_order 0 7 empty_heap 0 None None (Some (lit ''o1''))
     = (Inr 0,
        \<lparr>product_objs = [], customer_objs = [],
         order_objs = [\<lparr>order_id = lit ''o1'', order_customer = 0, order_items = [], order_created_at = 7\<rparr>]\<rparr>)
   \<and> \<not> is_Exception (BaseException (lit ''KeyboardInterrupt''))
   \<and> Order_init interrupted_add_order 0 7 empty_heap 0 None None (Some (lit ''o1''))
     = (Inl (BaseException (lit ''KeyboardInterrupt'')),
        \<lparr>product_objs = [], customer_objs = [],
         order_objs = [\<lparr>order_id = lit ''o1'', order_customer = 0, order_items = [], order_created_at = 7\<rparr>]\<rparr>)"
proof -
  let ?o = "\<lparr>order_id = lit ''o1'', order_customer = 0, order_items = [], order_created_at = 7\<rparr>"
  let ?h1 = "\<lparr>product_objs = [], customer_objs = [], order_objs = [?o]\<rparr>"
  have nonempty: "lit ''o1'' \<noteq> []" by (simp add: lit_def)
  have raises: "Customer_add_order ?h1 0 0 = (Inl (Exception (lit ''AttributeError'')), ?h1)"
    by (simp add: Customer_add_order_def)
  have a: "Order_init Customer_add_order 0 7 empty_heap 0 None None (Some (lit ''o1'')) = (Inr 0, ?h1)"
  proof -
    from Order_init_swallows_Exception [where oid = "Some (lit ''o1'')" and rnd = 0 and customer = 0
           and items = None and created_at = None and now = 7 and add_order = Customer_add_order
           and h = empty_heap]
    obtain obj where f: "order_id obj = lit ''o1''" "order_customer obj = 0" "order_items obj = []"
        "order_created_at obj = 7"
      and sw: "\<And>out h2.
          Customer_add_order (empty_heap\<lparr>order_objs := order_objs empty_heap @ [obj]\<rparr>) 0
             (length (order_objs empty_heap)) = (out, h2) \<Longrightarrow>
          (case out of Inr u \<Rightarrow> True | Inl e \<Rightarrow> is_Exception e) \<Longrightarrow>
          Order_init Customer_add_order 0 7 empty_heap 0 None None (Some (lit ''o1''))
            = (Inr (length (order_objs empty_heap)), h2)"
      using nonempty by auto
    from f have obj: "obj = ?o" by simp
    show ?thesis using sw[of "Inl (Exception (lit ''AttributeError''))" ?h1] raises
      by (simp add: obj empty_heap_def)
  qed
  have b: "Order_init interrupted_add_order 0 7 empty_heap 0 None None (Some (lit ''o1''))
     = (Inl (BaseException (lit ''KeyboardInterrupt'')), ?h1)"
  proof -
    from Order_init_swallows_Exception [where oid = "Some (lit ''o1'')" and rnd = 0 and customer = 0
           and items = None and created_at = None and now = 7 and add_order = interrupted_add_order
           and h = empty_heap]
    obtain obj where f: "order_id obj = lit ''o1''" "order_customer obj = 0" "order_items obj = []"
        "order_created_at obj = 7"
      and pr: "\<And>e h2.
          interrupted_add_order (empty_heap\<lparr>order_objs := order_objs empty_heap @ [obj]\<rparr>) 0
             (length (order_objs empty_heap)) = (Inl e, h2) \<Longrightarrow>
          \<not> is_Exception e \<Longrightarrow>
          Order_init interrupted_add_order 0 7 empty_heap 0 None None (Some (lit ''o1'')) = (Inl e, h2)"
      using nonempty by auto
    from f have obj: "obj = ?o" by simp
    show ?thesis using pr[of "BaseException (lit ''KeyboardInterrupt'')" ?h1]
      by (simp add: obj empty_heap_def interrupted_add_order_def)
  qed
  from raises a b show ?thesis by simp
qed

text \<open>
  Claim C5.  Constructing an order against a customer, with the registration method
  of \<open>Customer\<close>, returns a new order object and appends exactly this object to the
  order list of the customer; the orders that existed before and the lists of the
  other customers are as they were.  Starting from an empty list, the list has length
  one and its element is the constructed order.
\<close>

theorem Order_init_registers:
  assumes "customer < length (customer_objs h)"
  shows "\<exists>h'. Order_init Customer_add_order rnd now h customer items created_at oid
              = (Inr (length (order_objs h)), h')
      \<and> Customer_orders h' customer = Customer_orders h customer @ [length (order_objs h)]
      \<and> length (order_objs h') = Suc (length (order_objs h))
      \<and> order_customer (order_objs h' ! length (order_objs h)) = customer
      \<and> (\<forall>r < length (order_objs h). order_objs h' ! r = order_objs h ! r)
      \<and> (Customer_orders h customer = [] \<longrightarrow>
           length (Customer_orders h' customer) = 1
           \<and> Customer_orders h' customer ! 0 = length (order_objs h))
      \<and> (\<forall>c. c \<noteq> customer \<longrightarrow> Customer_orders h' c = Customer_orders h c)"
  using assms
  by (simp add: Order_init_def Customer_add_order_def Customer_orders_def Let_def nth_append)

theorem Order_init_registers_witness:
  "0 < length (customer_objs
        \<lparr>product_objs = [],
         customer_objs = [\<lparr>person_name = lit ''Ann'', person_email = None, person_phone = None,
                           customer_city = None, customer_id = lit ''c1'', customer_orders = []\<rparr>],
         order_objs = []\<rparr>)
   \<and> (\<exists>h1. Order_init Customer_add_order 0 5
              \<lparr>product_objs = [],
               customer_objs = [\<lparr>person_name = lit ''Ann'', person_email = None, person_phone = None,
                                 customer_city = None, customer_id = lit ''c1'', customer_orders = []\<rparr>],
               order_objs = []\<rparr>
              0 None None (Some (lit ''o1'')) = (Inr 0, h1)
         \<and> Customer_orders h1 0 = [0]
         \<and> (\<exists>h2. Order_init Customer_add_order 0 6 h1 0 None None (Some (lit ''o2'')) = (Inr 1, h2)
               \<and> Customer_orders h2 0 = [0, 1]))"
proof -
  let ?h0 = "\<lparr>product_objs = [],
         customer_objs = [\<lparr>person_name = lit ''Ann'', person_email = None, person_phone = None,
                           customer_city = None, customer_id = lit ''c1'', customer_orders = []\<rparr>],
         order_objs = []\<rparr>"
  have v0: "0 < length (customer_objs ?h0)" by simp
  have e0: "Customer_orders ?h0 0 = []" by (simp add: Customer_orders_def)
  from Order_init_registers [OF v0, where rnd = 0 and now = 5 and items = None and created_at = None
           and oid = "Some (lit ''o1'')"] e0
  obtain h1 where c1: "Order_init Customer_add_order 0 5 ?h0 0 None None (Some (lit ''o1'')) = (Inr 0, h1)"
    and l1: "Customer_orders h1 0 = [0]" and n1: "length (order_objs h1) = 1"
    by auto
  from c1 have v1: "0 < length (customer_objs h1)"
    by (auto simp: Order_init_def Customer_add_order_def Let_def)
  from Order_init_registers [OF v1, where rnd = 0 and now = 6 and items = None and created_at = None
           and oid = "Some (lit ''o2'')"] l1 n1
  obtain h2 where c2: "Order_init Customer_add_order 0 6 h1 0 None None (Some (lit ''o2'')) = (Inr 1, h2)"
    and l2: "Customer_orders h2 0 = [0, 1]"
    by auto
  from v0 c1 l1 c2 l2 show ?thesis by blast
qed

end
